theory Spec2Isabelle
  imports Main "HOL-Library.Char_ord" "HOL-Library.List_Lexorder"
begin

section \<open>Tables\<close>

text \<open>
  The program (\<^verbatim>\<open>xlsxmerge.py\<close>) loads sheets with \<^verbatim>\<open>pandas.read_excel\<close>, computes a list of
  column labels (\<^verbatim>\<open>compileColumns\<close>) and folds \<^verbatim>\<open>pandas.concat\<close> over the loaded sheets
  (\<^verbatim>\<open>main\<close>). \<^verbatim>\<open>compileColumns\<close> and the merge of \<^verbatim>\<open>main\<close> are embedded below line by
  line; \<^verbatim>\<open>parseArgs\<close> and \<^verbatim>\<open>loadSheets\<close> only read the command line and the files. The
  pandas operations are library code; they are modelled here from the documented behaviour
  of pandas, on the part of a data frame that the program observes: the ordered column
  labels and the ordered rows of cells.

  A cell is empty (\<^verbatim>\<open>NaN\<close>), a string or a number. Numbers are integers here: the program
  never computes on a cell, it only moves cells, so the representation of numbers (and pandas'
  change of a column's dtype when an empty cell enters it) does not matter to what follows.
\<close>

datatype cell = NaN | Str string | Num int

text \<open>
  A data frame: the column labels in order and the rows in order, every row holding one cell
  per column, in the order of the labels. The row index is not modelled: the program asks
  for \<^verbatim>\<open>ignore_index=True\<close>, so the index of a row is its position.
\<close>

record DataFrame =
  columns :: "string list"
  rows :: "cell list list"

text \<open>
  \<^verbatim>\<open>loadSheets\<close> returns \<^verbatim>\<open>list(data.items())\<close> of the dictionaries \<^verbatim>\<open>read_excel\<close> gives:
  pairs of a sheet name and the sheet's data frame.
\<close>

type_synonym frame = "string \<times> DataFrame"

text \<open>
  What \<^verbatim>\<open>read_excel\<close> produces: the labels of a sheet are unique (it renames a repeated
  header \<^verbatim>\<open>a\<close> to \<^verbatim>\<open>a.1\<close>), and every row has one cell per column. The specification
  leaves sheets with a repeated column name out of its scope.
\<close>

definition wf_DataFrame :: "DataFrame \<Rightarrow> bool" where
  "wf_DataFrame df \<longleftrightarrow>
     distinct (columns df) \<and> list_all (\<lambda>r. length r = length (columns df)) (rows df)"

definition wf_frames :: "frame list \<Rightarrow> bool" where
  "wf_frames frames \<longleftrightarrow> list_all (\<lambda>f. wf_DataFrame (snd f)) frames"

text \<open>The cell of row \<open>r\<close> under label \<open>c\<close>, in a frame whose labels are \<open>cs\<close>.\<close>

definition cell_at :: "string list \<Rightarrow> cell list \<Rightarrow> string \<Rightarrow> cell option" where
  "cell_at cs r c = map_of (zip cs r) c"

section \<open>The pandas operations used by the program\<close>

datatype error = InvalidIndexError

datatype join = Inner | Outer

text \<open>\<^verbatim>\<open>pandas.DataFrame(columns=columns)\<close>: the given labels and no row.\<close>

definition new_DataFrame :: "string list \<Rightarrow> DataFrame" where
  "new_DataFrame cs = \<lparr>columns = cs, rows = []\<rparr>"

text \<open>
  \<^verbatim>\<open>df[c] = v\<close> for a scalar \<open>v\<close>: when the label exists, every cell of that column is
  overwritten in place; otherwise a new column is appended as the last one, holding \<open>v\<close> in
  every row.
\<close>

definition setitem :: "DataFrame \<Rightarrow> string \<Rightarrow> cell \<Rightarrow> DataFrame" where
  "setitem df c v =
     (if c \<in> set (columns df)
      then df\<lparr>rows := map (\<lambda>r. map2 (\<lambda>d x. if d = c then v else x) (columns df) r) (rows df)\<rparr>
      else df\<lparr>columns := columns df @ [c], rows := map (\<lambda>r. r @ [v]) (rows df)\<rparr>)"

text \<open>
  Re-indexing one row from the labels \<open>old\<close> to the labels \<open>new\<close>: a label of \<open>new\<close> that
  \<open>old\<close> lacks gets an empty cell, a label of \<open>old\<close> that \<open>new\<close> lacks is dropped.
\<close>

definition reindex :: "string list \<Rightarrow> string list \<Rightarrow> cell list \<Rightarrow> cell list" where
  "reindex old new r = map (\<lambda>c. case cell_at old r c of Some v \<Rightarrow> v | None \<Rightarrow> NaN) new"

text \<open>The re-projection of a whole frame onto the labels \<open>cs\<close>, row by row.\<close>

definition project :: "string list \<Rightarrow> DataFrame \<Rightarrow> cell list list" where
  "project cs df = map (reindex (columns df) cs) (rows df)"

text \<open>
  The labels of the result of \<^verbatim>\<open>concat\<close>: under \<^verbatim>\<open>join='outer'\<close> the union of the two
  label lists, under \<^verbatim>\<open>join='inner'\<close> their intersection; \<^verbatim>\<open>sort=True\<close> sorts them.
  Labels are compared as Python compares strings (character by character, a proper prefix
  first), which for ASCII labels is the order of \<open>string\<close> here. Releases of pandas differ
  on whether \<^verbatim>\<open>sort=True\<close> also sorts the labels of an inner join or leaves them in the
  order of the first frame; the model sorts. Everything proved below is about the set of
  labels and about cells found by their label, so it does not depend on that order.
\<close>

definition combined_index :: "join \<Rightarrow> string list \<Rightarrow> string list \<Rightarrow> string list" where
  "combined_index j a b =
     sort (case j of
             Outer \<Rightarrow> a @ filter (\<lambda>c. c \<notin> set a) b
           | Inner \<Rightarrow> filter (\<lambda>c. c \<in> set b) a)"

text \<open>
  \<^verbatim>\<open>pandas.concat((a, b), ignore_index=True, sort=True, join=j)\<close>: the rows of \<open>a\<close>, then the
  rows of \<open>b\<close>, each re-indexed to the combined labels. pandas re-indexes only a frame
  whose labels are unique and raises \<^verbatim>\<open>InvalidIndexError\<close> otherwise; on two data frames
  with string labels this is the exception \<^verbatim>\<open>concat\<close> can raise. The model raises as soon
  as one of the two frames repeats a label. (pandas lets such frames through in the one case
  where nothing has to be re-indexed; no sheet read by \<^verbatim>\<open>read_excel\<close> repeats a label.)
\<close>

definition pd_concat :: "DataFrame \<Rightarrow> DataFrame \<Rightarrow> join \<Rightarrow> error + DataFrame" where
  "pd_concat a b j =
     (if \<not> distinct (columns a) \<or> \<not> distinct (columns b) then Inl InvalidIndexError
      else let cs = combined_index j (columns a) (columns b)
           in Inr \<lparr>columns = cs,
                   rows = project cs a @ project cs b\<rparr>)"

section \<open>The program\<close>

text \<open>
  \<^verbatim>\<open>compileColumns\<close>. The Python collects the labels in a \<^verbatim>\<open>set\<close> and returns
  \<^verbatim>\<open>list(columns)\<close>, whose order Python leaves unspecified; the model keeps a list without
  repetition, \<^verbatim>\<open>add\<close> being \<^const>\<open>List.insert\<close> (lemma \<open>merge_loop_any_order\<close> below shows
  that the order does not matter). \<open>add_columns\<close> is the inner loop
  (\<^verbatim>\<open>for c in dataframe.columns\<close>), \<open>compile_loop\<close> the outer one (\<^verbatim>\<open>for f in frames\<close>).
\<close>

fun add_columns :: "string list \<Rightarrow> string list \<Rightarrow> string list" where
  "add_columns cols [] = cols"
| "add_columns cols (c # cs) = add_columns (List.insert c cols) cs"

fun compile_loop :: "string list \<Rightarrow> frame list \<Rightarrow> string list" where
  "compile_loop cols [] = cols"
| "compile_loop cols (f # frames) = compile_loop (add_columns cols (columns (snd f))) frames"

definition compileColumns :: "frame list \<Rightarrow> bool \<Rightarrow> string list" where
  "compileColumns frames add_type =
     compile_loop (if add_type then List.insert ''Type'' [] else []) frames"

text \<open>
  \<^verbatim>\<open>main\<close>, from the loaded frames to the merged frame. Parsing the command line, reading
  the files and writing the result are input and output and are not modelled: the model
  takes what \<^verbatim>\<open>loadSheets\<close> returns and the two flags \<^verbatim>\<open>args['include_type']\<close> and
  \<^verbatim>\<open>args['common_columns_only']\<close>, and returns \<^verbatim>\<open>outframe\<close> as it is when the loop ends.

  \<open>stamp\<close> is the body of \<^verbatim>\<open>if args['include_type']\<close>: the assignment
  \<^verbatim>\<open>f[1]['Type'] = f[0]\<close> changes the loaded frame itself, so the loop also returns the
  loaded frames as they are afterwards. \<open>merge_loop\<close> is the loop \<^verbatim>\<open>for f in frames\<close>; an
  exception of \<^verbatim>\<open>concat\<close> ends the program.
\<close>

definition stamp :: "bool \<Rightarrow> frame \<Rightarrow> frame" where
  "stamp include_type f =
     (if include_type then (fst f, setitem (snd f) ''Type'' (Str (fst f))) else f)"

fun merge_loop :: "bool \<Rightarrow> join \<Rightarrow> frame list \<Rightarrow> DataFrame \<Rightarrow> error + (frame list \<times> DataFrame)" where
  "merge_loop include_type j [] outframe = Inr ([], outframe)"
| "merge_loop include_type j (f # frames) outframe =
     (let f' = stamp include_type f in
      case pd_concat outframe (snd f') j of
        Inl e \<Rightarrow> Inl e
      | Inr outframe' \<Rightarrow>
          (case merge_loop include_type j frames outframe' of
             Inl e \<Rightarrow> Inl e
           | Inr (frames', out) \<Rightarrow> Inr (f' # frames', out)))"

definition main :: "frame list \<Rightarrow> bool \<Rightarrow> bool \<Rightarrow> error + (frame list \<times> DataFrame)" where
  "main frames include_type common_columns_only =
     (let cols = compileColumns frames include_type;
          j = (if common_columns_only then Inner else Outer);
          outframe = new_DataFrame cols
      in merge_loop include_type j frames outframe)"

section \<open>Notions used to state the properties\<close>

text \<open>
  The position in the merged table of row \<open>k\<close> of the \<open>i\<close>-th loaded table: the number of
  rows of the tables loaded before it, plus \<open>k\<close>.
\<close>

definition nrows :: "frame \<Rightarrow> nat" where
  "nrows f = length (rows (snd f))"

definition offset :: "frame list \<Rightarrow> nat \<Rightarrow> nat" where
  "offset frames i = sum_list (map nrows (take i frames))"

text \<open>The cell under a label, as re-indexing reads it: empty when the label is absent.\<close>

definition cell_or_NaN :: "string list \<Rightarrow> cell list \<Rightarrow> string \<Rightarrow> cell" where
  "cell_or_NaN cs r c = (case cell_at cs r c of Some v \<Rightarrow> v | None \<Rightarrow> NaN)"

text \<open>
  A table without the column \<open>c\<close>: the other labels in their order, and every row without
  its cell under \<open>c\<close>. Two versions of a table that are equal without \<^verbatim>\<open>Type\<close> have the
  same other columns, the same rows in the same order and the same cell everywhere else.
\<close>

definition without :: "string \<Rightarrow> DataFrame \<Rightarrow> DataFrame" where
  "without c df =
     \<lparr>columns = filter (\<lambda>d. d \<noteq> c) (columns df),
      rows = map (\<lambda>r. map snd (filter (\<lambda>(d, x). d \<noteq> c) (zip (columns df) r))) (rows df)\<rparr>"

section \<open>Example tables\<close>

text \<open>
  The tables of the scenario of the specification: \<^verbatim>\<open>sales\<close> with the columns Name and
  Amount and two rows, \<^verbatim>\<open>refunds\<close> with the columns Name and Reason and one row; and a
  table that already has a column \<^verbatim>\<open>Type\<close>.
\<close>

definition sales :: frame where
  "sales = (''Sales'', \<lparr>columns = [''Name'', ''Amount''],
                        rows = [[Str ''ann'', Num 3], [Str ''bob'', Num 5]]\<rparr>)"

definition refunds :: frame where
  "refunds = (''Refunds'', \<lparr>columns = [''Name'', ''Reason''],
                            rows = [[Str ''ann'', Str ''broken'']]\<rparr>)"

definition stock :: frame where
  "stock = (''Stock'', \<lparr>columns = [''Type'', ''Name''], rows = [[Str ''tool'', Str ''saw'']]\<rparr>)"

section \<open>The column list of \<^verbatim>\<open>compileColumns\<close>\<close>

lemma set_add_columns: "set (add_columns cols cs) = set cols \<union> set cs"
  by (induction cs arbitrary: cols) auto

lemma distinct_add_columns: "distinct cols \<Longrightarrow> distinct (add_columns cols cs)"
  by (induction cs arbitrary: cols) auto

lemma set_compile_loop:
  "set (compile_loop cols frames) = set cols \<union> (\<Union>f\<in>set frames. set (columns (snd f)))"
  by (induction frames arbitrary: cols) (auto simp: set_add_columns)

lemma distinct_compile_loop: "distinct cols \<Longrightarrow> distinct (compile_loop cols frames)"
  by (induction frames arbitrary: cols) (auto simp: distinct_add_columns)

lemma set_compileColumns:
  "set (compileColumns frames add_type) =
     (\<Union>f\<in>set frames. set (columns (snd f))) \<union> (if add_type then {''Type''} else {})"
  by (auto simp: compileColumns_def set_compile_loop)

lemma distinct_compileColumns: "distinct (compileColumns frames add_type)"
  by (simp add: compileColumns_def distinct_compile_loop)

section \<open>Labels and cells under the pandas operations\<close>

lemma set_combined_index_Outer: "set (combined_index Outer a b) = set a \<union> set b"
  by (auto simp: combined_index_def)

lemma set_combined_index_Inner: "set (combined_index Inner a b) = set a \<inter> set b"
  by (auto simp: combined_index_def)

lemma distinct_combined_index: "distinct a \<Longrightarrow> distinct b \<Longrightarrow> distinct (combined_index j a b)"
  by (cases j) (auto simp: combined_index_def)

lemma columns_setitem: "set (columns (setitem df c v)) = insert c (set (columns df))"
  by (auto simp: setitem_def)

lemma distinct_setitem: "distinct (columns df) \<Longrightarrow> distinct (columns (setitem df c v))"
  by (auto simp: setitem_def)

lemma length_rows_setitem: "length (rows (setitem df c v)) = length (rows df)"
  by (auto simp: setitem_def)

lemma distinct_stamp: "distinct (columns (snd f)) \<Longrightarrow> distinct (columns (snd (stamp t f)))"
  by (simp add: stamp_def distinct_setitem)

lemma columns_stamp:
  "set (columns (snd (stamp t f))) = set (columns (snd f)) \<union> (if t then {''Type''} else {})"
  by (simp add: stamp_def columns_setitem)

lemma length_reindex: "length (reindex old new r) = length new"
  by (simp add: reindex_def)

lemma cell_at_reindex:
  "cell_at new (reindex old new r) c =
     (if c \<in> set new then Some (case cell_at old r c of Some v \<Rightarrow> v | None \<Rightarrow> NaN) else None)"
  by (simp add: cell_at_def reindex_def map_of_zip_map)

lemma reindex_reindex:
  assumes "\<forall>c\<in>set new. c \<in> set mid \<or> c \<notin> set old"
  shows "reindex mid new (reindex old mid r) = reindex old new r"
  unfolding reindex_def
proof (rule map_cong[OF refl])
  fix c assume c: "c \<in> set new"
  show "(case cell_at mid (map (\<lambda>c. case cell_at old r c of None \<Rightarrow> NaN | Some v \<Rightarrow> v) mid) c of
          None \<Rightarrow> NaN | Some v \<Rightarrow> v) = (case cell_at old r c of None \<Rightarrow> NaN | Some v \<Rightarrow> v)"
  proof (cases "c \<in> set mid")
    case True
    then show ?thesis by (simp add: cell_at_def map_of_zip_map)
  next
    case False
    with assms c have "c \<notin> set old" by blast
    then have "cell_at old r c = None"
      by (auto simp: cell_at_def map_of_eq_None_iff dest: set_zip_leftD)
    with False show ?thesis by (simp add: cell_at_def map_of_zip_map)
  qed
qed

lemma reindex_same:
  assumes "distinct cs" "length r = length cs"
  shows "reindex cs cs r = r"
proof (rule nth_equalityI)
  show "length (reindex cs cs r) = length r"
    using assms by (simp add: reindex_def)
next
  fix i assume "i < length (reindex cs cs r)"
  then have i: "i < length cs" by (simp add: reindex_def)
  with assms have "map_of (zip cs r) (cs ! i) = Some (r ! i)"
    by (simp add: map_of_zip_nth)
  with i show "reindex cs cs r ! i = r ! i"
    by (simp add: reindex_def cell_at_def)
qed

lemma project_same: "wf_DataFrame df \<Longrightarrow> project (columns df) df = rows df"
  by (simp add: project_def wf_DataFrame_def list_all_iff reindex_same map_idI)

lemma project_project:
  assumes "\<forall>c\<in>set new. c \<in> set mid \<or> c \<notin> set (columns df)"
  shows "map (reindex mid new) (project mid df) = project new df"
  using assms by (simp add: project_def reindex_reindex)

lemma pd_concat_Inr:
  assumes "distinct (columns a)" "distinct (columns b)"
  shows "pd_concat a b j =
           Inr \<lparr>columns = combined_index j (columns a) (columns b),
                rows = project (combined_index j (columns a) (columns b)) a @
                       project (combined_index j (columns a) (columns b)) b\<rparr>"
  using assms by (simp add: pd_concat_def Let_def)

section \<open>The merge loop\<close>

text \<open>
  From any well-formed accumulated frame, over tables with unique labels, the loop returns:
  the tables stamped, and an output frame whose labels are the accumulated labels joined
  with those of every stamped table and whose rows are the accumulated rows followed by
  the rows of the stamped tables in order, all re-projected onto the final labels.
\<close>

lemma merge_loop_Inr:
  assumes "wf_DataFrame out0" "list_all (\<lambda>f. distinct (columns (snd f))) frames"
  shows "\<exists>out. merge_loop t j frames out0 = Inr (map (stamp t) frames, out) \<and>
           wf_DataFrame out \<and>
           set (columns out) =
             (case j of
                Outer \<Rightarrow> set (columns out0) \<union> (\<Union>f\<in>set frames. set (columns (snd (stamp t f))))
              | Inner \<Rightarrow> set (columns out0) \<inter> (\<Inter>f\<in>set frames. set (columns (snd (stamp t f))))) \<and>
           rows out = project (columns out) out0 @
                      concat (map (\<lambda>f. project (columns out) (snd (stamp t f))) frames)"
  using assms
proof (induction frames arbitrary: out0)
  case Nil
  show ?case
    using Nil.prems(1) by (cases j) (simp_all add: project_same wf_DataFrame_def)
next
  case (Cons f frames)
  define g where "g = snd (stamp t f)"
  define c1 where "c1 = combined_index j (columns out0) (columns g)"
  define out1 where "out1 = \<lparr>columns = c1, rows = project c1 out0 @ project c1 g\<rparr>"
  have dg: "distinct (columns g)"
    using Cons.prems(2) by (simp add: g_def distinct_stamp)
  have d0: "distinct (columns out0)"
    using Cons.prems(1) by (simp add: wf_DataFrame_def)
  have step: "pd_concat out0 g j = Inr out1"
    using d0 dg by (simp add: pd_concat_Inr out1_def c1_def)
  have d1: "wf_DataFrame out1"
    using d0 dg
    by (auto simp: wf_DataFrame_def out1_def c1_def distinct_combined_index project_def
        list_all_iff length_reindex)
  from Cons.prems(2) have rest: "list_all (\<lambda>f. distinct (columns (snd f))) frames"
    by simp
  from Cons.IH [OF d1 rest] obtain out where
    run: "merge_loop t j frames out1 = Inr (map (stamp t) frames, out)" and
    dout: "wf_DataFrame out" and
    cols: "set (columns out) =
             (case j of
                Outer \<Rightarrow> set (columns out1) \<union> (\<Union>f\<in>set frames. set (columns (snd (stamp t f))))
              | Inner \<Rightarrow> set (columns out1) \<inter> (\<Inter>f\<in>set frames. set (columns (snd (stamp t f)))))" and
    rws: "rows out = project (columns out) out1 @
                     concat (map (\<lambda>f. project (columns out) (snd (stamp t f))) frames)"
    by blast
  have c1_set: "set (columns out1) =
      (case j of Outer \<Rightarrow> set (columns out0) \<union> set (columns g)
               | Inner \<Rightarrow> set (columns out0) \<inter> set (columns g))"
    by (cases j) (simp_all add: out1_def c1_def set_combined_index_Outer set_combined_index_Inner)
  have run': "merge_loop t j (f # frames) out0 = Inr (map (stamp t) (f # frames), out)"
    using step run by (simp add: g_def Let_def)
  have cols': "set (columns out) =
             (case j of
                Outer \<Rightarrow> set (columns out0) \<union> (\<Union>f\<in>set (f # frames). set (columns (snd (stamp t f))))
              | Inner \<Rightarrow> set (columns out0) \<inter> (\<Inter>f\<in>set (f # frames). set (columns (snd (stamp t f)))))"
    using cols c1_set by (cases j) (auto simp: g_def)
  have ok: "\<forall>c\<in>set (columns out). c \<in> set c1 \<or> (c \<notin> set (columns out0) \<and> c \<notin> set (columns g))"
    using cols c1_set by (cases j) (auto simp: out1_def)
  have "project (columns out) out1 =
          map (reindex c1 (columns out)) (project c1 out0) @
          map (reindex c1 (columns out)) (project c1 g)"
    by (simp add: project_def out1_def)
  also have "map (reindex c1 (columns out)) (project c1 out0) = project (columns out) out0"
    using ok by (intro project_project) blast
  also have "map (reindex c1 (columns out)) (project c1 g) = project (columns out) g"
    using ok by (intro project_project) blast
  finally have "rows out = project (columns out) out0 @
                      concat (map (\<lambda>f. project (columns out) (snd (stamp t f))) (f # frames))"
    using rws by (simp add: g_def)
  with run' dout cols' show ?case by blast
qed

section \<open>The merge of \<^verbatim>\<open>main\<close>\<close>

lemma wf_frames_distinct:
  "wf_frames frames \<Longrightarrow> list_all (\<lambda>f. distinct (columns (snd f))) frames"
  by (simp add: wf_frames_def wf_DataFrame_def list_all_iff)

lemma main_Inr:
  assumes "wf_frames frames"
  obtains out where
    "main frames t cco = Inr (map (stamp t) frames, out)"
    "wf_DataFrame out"
    "set (columns out) =
       (if cco
        then set (compileColumns frames t) \<inter> (\<Inter>f\<in>set frames. set (columns (snd (stamp t f))))
        else set (compileColumns frames t) \<union> (\<Union>f\<in>set frames. set (columns (snd (stamp t f)))))"
    "rows out = concat (map (\<lambda>f. project (columns out) (snd (stamp t f))) frames)"
proof -
  have wf0: "wf_DataFrame (new_DataFrame (compileColumns frames t))"
    by (simp add: wf_DataFrame_def new_DataFrame_def distinct_compileColumns)
  from merge_loop_Inr [OF wf0 wf_frames_distinct [OF assms], of t "if cco then Inner else Outer"]
  obtain out where
    "merge_loop t (if cco then Inner else Outer) frames (new_DataFrame (compileColumns frames t)) =
       Inr (map (stamp t) frames, out)"
    "wf_DataFrame out"
    "set (columns out) =
       (case (if cco then Inner else Outer) of
          Outer \<Rightarrow> set (columns (new_DataFrame (compileColumns frames t))) \<union>
                   (\<Union>f\<in>set frames. set (columns (snd (stamp t f))))
        | Inner \<Rightarrow> set (columns (new_DataFrame (compileColumns frames t))) \<inter>
                   (\<Inter>f\<in>set frames. set (columns (snd (stamp t f)))))"
    "rows out = project (columns out) (new_DataFrame (compileColumns frames t)) @
                concat (map (\<lambda>f. project (columns out) (snd (stamp t f))) frames)"
    by blast
  then show thesis
    by (intro that [of out]) (simp_all add: main_def Let_def new_DataFrame_def project_def)
qed

lemma merge_columns_union:
  "set (compileColumns frames t) \<union> (\<Union>f\<in>set frames. set (columns (snd (stamp t f)))) =
     (\<Union>f\<in>set frames. set (columns (snd f))) \<union> (if t then {''Type''} else {})"
  by (auto simp: set_compileColumns columns_stamp)

lemma merge_columns_inter:
  "set (compileColumns frames t) \<inter> (\<Inter>f\<in>set frames. set (columns (snd (stamp t f)))) =
     (if frames = [] then {} else (\<Inter>f\<in>set frames. set (columns (snd f)))) \<union>
     (if t then {''Type''} else {})"
proof (cases frames)
  case Nil
  then show ?thesis by (simp add: set_compileColumns)
next
  case (Cons f fs)
  then show ?thesis by (auto simp: set_compileColumns columns_stamp)
qed

lemma length_project: "length (project cs df) = length (rows df)"
  by (simp add: project_def)

lemma nrows_stamp: "nrows (stamp t f) = nrows f"
  by (simp add: nrows_def stamp_def length_rows_setitem)

lemma length_concat_project:
  "length (concat (map (\<lambda>f. project cs (snd (stamp t f))) frames)) = sum_list (map nrows frames)"
  by (induction frames) (simp_all add: length_project nrows_stamp [unfolded nrows_def] nrows_def)

text \<open>
  The order in which Python enumerates the set of \<^verbatim>\<open>compileColumns\<close> does not show in the
  result: with at least one table loaded, the loop started from any list of the same labels
  returns what \<open>main\<close> returns. (With no table the list has at most one label.)
\<close>

lemma combined_index_cong:
  assumes "distinct a" "distinct a'" "set a = set a'" "distinct b"
  shows "combined_index j a b = combined_index j a' b"
proof -
  have eq: "sort xs = sort ys" if "distinct xs" "distinct ys" "set xs = set ys"
    for xs ys :: "string list"
    using that by (intro sorted_distinct_set_unique) simp_all
  show ?thesis
  proof (cases j)
    case Inner
    have "sort (filter (\<lambda>c. c \<in> set b) a) = sort (filter (\<lambda>c. c \<in> set b) a')"
      using assms by (intro eq) auto
    with Inner show ?thesis by (simp add: combined_index_def)
  next
    case Outer
    have "sort (a @ filter (\<lambda>c. c \<notin> set a) b) = sort (a' @ filter (\<lambda>c. c \<notin> set a') b)"
      using assms by (intro eq) auto
    with Outer show ?thesis by (simp add: combined_index_def)
  qed
qed

lemma merge_loop_any_order:
  assumes "distinct cols" "set cols = set (compileColumns frames t)" "frames \<noteq> []"
  shows "merge_loop t (if cco then Inner else Outer) frames (new_DataFrame cols) = main frames t cco"
proof -
  from assms(3) obtain f fs where fs: "frames = f # fs" by (cases frames) auto
  have "pd_concat (new_DataFrame cols) g j = pd_concat (new_DataFrame (compileColumns frames t)) g j"
    for g j
  proof (cases "distinct (columns g)")
    case True
    with assms(1,2) show ?thesis
      using combined_index_cong [of cols "compileColumns frames t" "columns g" j]
      by (simp add: pd_concat_def new_DataFrame_def project_def distinct_compileColumns Let_def)
  next
    case False
    then show ?thesis by (simp add: pd_concat_def)
  qed
  then show ?thesis
    by (simp add: main_def fs Let_def)
qed

text \<open>The definitions to unfold when the model is run on a concrete input.\<close>

lemmas model_defs = main_def compileColumns_def stamp_def setitem_def pd_concat_def
  new_DataFrame_def combined_index_def reindex_def project_def cell_at_def

section \<open>Rows and cells of the merged table\<close>

text \<open>Stamping a table: the labels stay unique, the rows stay full.\<close>

lemma zip_map2:
  "zip cs (map2 g cs r) = map (\<lambda>(d, x). (d, g d x)) (zip cs r)"
proof (induction cs arbitrary: r)
  case Nil
  show ?case by simp
next
  case (Cons d cs)
  then show ?case by (cases r) simp_all
qed

lemma wf_setitem:
  assumes "wf_DataFrame df"
  shows "wf_DataFrame (setitem df c v)"
  using assms by (auto simp: wf_DataFrame_def setitem_def list_all_iff)

lemma without_setitem:
  assumes "wf_DataFrame df"
  shows "without c (setitem df c v) = without c df"
proof (cases "c \<in> set (columns df)")
  case True
  have "map snd (filter (\<lambda>(d, x). d \<noteq> c)
            (map (\<lambda>(d, x). (d, if d = c then v else x)) xs)) =
        map snd (filter (\<lambda>(d, x). d \<noteq> c) xs)" for xs :: "(string \<times> cell) list"
    by (induction xs) auto
  then have "map snd (filter (\<lambda>(d, x). d \<noteq> c)
            (zip (columns df) (map2 (\<lambda>d x. if d = c then v else x) (columns df) r))) =
        map snd (filter (\<lambda>(d, x). d \<noteq> c) (zip (columns df) r))" for r
    by (simp only: zip_map2)
  with True show ?thesis by (simp add: without_def setitem_def)
next
  case False
  have "map snd (filter (\<lambda>(d, x). d \<noteq> c) (zip (columns df @ [c]) (r @ [v]))) =
        map snd (filter (\<lambda>(d, x). d \<noteq> c) (zip (columns df) r))"
    if "length r = length (columns df)" for r
    using that by simp
  with False assms show ?thesis
    by (simp add: without_def setitem_def wf_DataFrame_def list_all_iff)
qed

lemma cell_at_setitem_same:
  assumes "wf_DataFrame df" "r' \<in> set (rows (setitem df c v))"
  shows "cell_at (columns (setitem df c v)) r' c = Some v"
proof (cases "c \<in> set (columns df)")
  case True
  with assms(2) obtain r where r: "r \<in> set (rows df)"
    and r': "r' = map2 (\<lambda>d x. if d = c then v else x) (columns df) r"
    by (auto simp: setitem_def)
  from assms(1) r have len: "length r = length (columns df)"
    by (simp add: wf_DataFrame_def list_all_iff)
  have "map_of (map (\<lambda>(d, x). (d, if d = c then v else x)) xs) c = Some v"
    if "c \<in> fst ` set xs" for xs :: "(string \<times> cell) list"
    using that by (induction xs) auto
  moreover have "c \<in> fst ` set (zip (columns df) r)"
    using True len by (metis map_fst_zip set_map)
  ultimately show ?thesis
    using True by (simp add: cell_at_def setitem_def r' zip_map2)
next
  case False
  with assms(2) obtain r where r: "r \<in> set (rows df)" and r': "r' = r @ [v]"
    by (auto simp: setitem_def)
  from assms(1) r have len: "length r = length (columns df)"
    by (simp add: wf_DataFrame_def list_all_iff)
  have none: "map_of (zip (columns df) r) c = None"
    using False by (auto simp: map_of_eq_None_iff dest: set_zip_leftD)
  have "cell_at (columns df @ [c]) (r @ [v]) c = Some v"
    using len by (simp add: cell_at_def map_add_def none)
  with False show ?thesis
    by (simp add: setitem_def r')
qed

lemma cell_at_setitem_other:
  assumes "wf_DataFrame df" "k < length (rows df)" "c' \<noteq> c"
  shows "cell_at (columns (setitem df c v)) (rows (setitem df c v) ! k) c' =
         cell_at (columns df) (rows df ! k) c'"
proof (cases "c \<in> set (columns df)")
  case True
  have "map_of (map (\<lambda>(d, x). (d, if d = c then v else x)) xs) c' = map_of xs c'"
    for xs :: "(string \<times> cell) list"
    using assms(3) by (induction xs) auto
  with True assms(2) show ?thesis
    by (simp add: cell_at_def setitem_def zip_map2)
next
  case False
  from assms(1,2) have len: "length (rows df ! k) = length (columns df)"
    by (simp add: wf_DataFrame_def list_all_length)
  show ?thesis
  proof (cases "map_of (zip (columns df) (rows df ! k)) c'")
    case None
    show ?thesis
      using False assms(2,3) len by (simp add: cell_at_def setitem_def map_add_def None)
  next
    case (Some x)
    show ?thesis
      using False assms(2,3) len by (simp add: cell_at_def setitem_def map_add_def Some)
  qed
qed

lemma concat_nth_offset:
  assumes "i < length xss" "k < length (xss ! i)"
  shows "sum_list (map length (take i xss)) + k < length (concat xss) \<and>
         concat xss ! (sum_list (map length (take i xss)) + k) = xss ! i ! k"
  using assms
proof (induction xss arbitrary: i)
  case Nil
  then show ?case by simp
next
  case (Cons xs xss)
  show ?case
  proof (cases i)
    case 0
    with Cons.prems show ?thesis by (simp add: nth_append)
  next
    case (Suc n)
    with Cons.prems Cons.IH [of n] show ?thesis
      by (simp add: nth_append length_concat)
  qed
qed


lemma wf_stamp: "wf_DataFrame (snd f) \<Longrightarrow> wf_DataFrame (snd (stamp t f))"
  by (simp add: stamp_def wf_setitem)

lemma fst_stamp: "fst (stamp t f) = fst f"
  by (simp add: stamp_def)

lemma stamp_cell:
  assumes "wf_DataFrame (snd f)" "k < nrows f"
  shows "cell_or_NaN (columns (snd (stamp t f))) (rows (snd (stamp t f)) ! k) c =
           (if t \<and> c = ''Type'' then Str (fst f)
            else cell_or_NaN (columns (snd f)) (rows (snd f) ! k) c)"
proof (cases "t \<and> c = ''Type''")
  case True
  have "rows (setitem (snd f) ''Type'' (Str (fst f))) ! k \<in>
          set (rows (setitem (snd f) ''Type'' (Str (fst f))))"
    using assms(2) by (simp add: nrows_def length_rows_setitem)
  from cell_at_setitem_same [OF assms(1) this] True show ?thesis
    by (simp add: cell_or_NaN_def stamp_def)
next
  case False
  show ?thesis
  proof (cases t)
    case True
    with False have "c \<noteq> ''Type''" by simp
    from cell_at_setitem_other [OF assms(1) _ this, of k "Str (fst f)"] assms(2) True False
    show ?thesis by (simp add: cell_or_NaN_def stamp_def nrows_def)
  next
    case False
    then show ?thesis by (simp add: stamp_def)
  qed
qed

lemma offset_Suc: "i < length frames \<Longrightarrow> offset frames (Suc i) = offset frames i + nrows (frames ! i)"
  by (simp add: offset_def take_Suc_conv_app_nth)

lemma offset_mono: "i \<le> j \<Longrightarrow> offset frames i \<le> offset frames j"
proof -
  assume "i \<le> j"
  then obtain d where "j = i + d" by (auto simp: le_iff_add)
  then show ?thesis by (simp add: offset_def take_add)
qed

lemma offset_less:
  assumes "i < j" "j \<le> length frames" "k < nrows (frames ! i)"
  shows "offset frames i + k < offset frames j"
proof -
  from assms have "offset frames (Suc i) = offset frames i + nrows (frames ! i)"
    by (simp add: offset_Suc)
  moreover from assms(1) have "offset frames (Suc i) \<le> offset frames j"
    by (simp add: offset_mono)
  ultimately show ?thesis using assms(3) by simp
qed

lemma merged_row:
  assumes "rows out = concat (map (\<lambda>f. project (columns out) (snd (stamp t f))) frames)"
    and "i < length frames" "k < nrows (frames ! i)"
  shows "offset frames i + k < length (rows out)"
    and "rows out ! (offset frames i + k) =
           reindex (columns (snd (stamp t (frames ! i)))) (columns out)
             (rows (snd (stamp t (frames ! i))) ! k)"
proof -
  define xss where "xss = map (\<lambda>f. project (columns out) (snd (stamp t f))) frames"
  have len: "map length (take i xss) = map nrows (take i frames)"
    by (simp add: xss_def take_map length_project nrows_stamp [unfolded nrows_def] nrows_def)
  have i: "i < length xss" using assms(2) by (simp add: xss_def)
  have xi: "xss ! i = project (columns out) (snd (stamp t (frames ! i)))"
    using assms(2) by (simp add: xss_def)
  have k: "k < length (xss ! i)"
    using assms(3) by (simp add: xi length_project nrows_stamp [unfolded nrows_def] nrows_def)
  from concat_nth_offset [OF i k] have
    "offset frames i + k < length (concat xss)"
    "concat xss ! (offset frames i + k) = xss ! i ! k"
    by (simp_all add: len offset_def)
  moreover have "xss ! i ! k =
      reindex (columns (snd (stamp t (frames ! i)))) (columns out)
        (rows (snd (stamp t (frames ! i))) ! k)"
    using k by (simp add: xi project_def)
  ultimately show "offset frames i + k < length (rows out)"
    and "rows out ! (offset frames i + k) =
           reindex (columns (snd (stamp t (frames ! i)))) (columns out)
             (rows (snd (stamp t (frames ! i))) ! k)"
    by (simp_all add: assms(1) xss_def)
qed

lemma merged_cell:
  assumes "wf_frames frames"
    and "rows out = concat (map (\<lambda>f. project (columns out) (snd (stamp t f))) frames)"
    and "i < length frames" "k < nrows (frames ! i)" "c \<in> set (columns out)"
  shows "cell_at (columns out) (rows out ! (offset frames i + k)) c =
           Some (if t \<and> c = ''Type'' then Str (fst (frames ! i))
                 else cell_or_NaN (columns (snd (frames ! i))) (rows (snd (frames ! i)) ! k) c)"
proof -
  have wf: "wf_DataFrame (snd (frames ! i))"
    using assms(1,3) by (simp add: wf_frames_def list_all_length)
  from merged_row(2) [OF assms(2,3,4)] assms(5)
  have "cell_at (columns out) (rows out ! (offset frames i + k)) c =
          Some (cell_or_NaN (columns (snd (stamp t (frames ! i))))
                  (rows (snd (stamp t (frames ! i))) ! k) c)"
    by (simp add: cell_at_reindex cell_or_NaN_def)
  then show ?thesis by (simp only: stamp_cell [OF wf assms(4)])
qed

lemma Type_cells_project:
  assumes "wf_DataFrame (snd f)" "''Type'' \<in> set cs"
  shows "map (\<lambda>r. cell_at cs r ''Type'') (project cs (snd (stamp True f))) =
           replicate (nrows f) (Some (Str (fst f)))"
proof -
  have "cell_at cs (reindex (columns (snd (stamp True f))) cs r) ''Type'' = Some (Str (fst f))"
    if "r \<in> set (rows (snd (stamp True f)))" for r
    using cell_at_setitem_same [OF assms(1), of r "''Type''" "Str (fst f)"] that assms(2)
    by (simp add: cell_at_reindex stamp_def)
  then have "map (\<lambda>r. cell_at cs r ''Type'') (project cs (snd (stamp True f))) =
               map (\<lambda>r. Some (Str (fst f))) (rows (snd (stamp True f)))"
    by (simp add: project_def)
  then show ?thesis
    by (simp add: map_replicate_const nrows_stamp [unfolded nrows_def] nrows_def)
qed

lemma without_stamp: "wf_DataFrame (snd f) \<Longrightarrow> without ''Type'' (snd (stamp t f)) = without ''Type'' (snd f)"
  by (simp add: stamp_def without_setitem)

section \<open>Properties of the merged table\<close>

text \<open>
  C1. For every sequence of loaded tables, in union and in intersection mode, with or
  without the Type column, the merge returns a table, and the number of its rows is the sum
  of the numbers of rows of the loaded tables.
\<close>

theorem C1:
  assumes "wf_frames frames"
  shows "\<exists>frames' out. main frames add_type common_columns_only = Inr (frames', out) \<and>
           length (rows out) = sum_list (map nrows frames)"
proof -
  from main_Inr [OF assms, of add_type common_columns_only] obtain out where
    "main frames add_type common_columns_only = Inr (map (stamp add_type) frames, out)"
    "rows out = concat (map (\<lambda>f. project (columns out) (snd (stamp add_type f))) frames)"
    by blast
  then show ?thesis by (auto simp: length_concat_project)
qed

theorem C1_witness:
  "wf_frames [sales, refunds, stock] \<and>
   (\<exists>frames' out. main [sales, refunds, stock] True True = Inr (frames', out) \<and>
      length (rows out) = 4)"
proof -
  have wf: "wf_frames [sales, refunds, stock]"
    by (simp add: wf_frames_def wf_DataFrame_def sales_def refunds_def stock_def)
  have "sum_list (map nrows [sales, refunds, stock]) = 4"
    by (simp add: nrows_def sales_def refunds_def stock_def)
  with C1 [OF wf, of True True] wf show ?thesis by simp
qed

text \<open>
  C2. In union mode (\<^verbatim>\<open>common_columns_only\<close> false) the labels of the merged table are, as
  a set, the union of the labels of all loaded tables, plus \<^verbatim>\<open>Type\<close> when \<^verbatim>\<open>add_type\<close> is
  true. In particular no label of a loaded table is missing from the merged table.
\<close>

theorem C2:
  assumes "wf_frames frames"
  shows "\<exists>frames' out. main frames add_type False = Inr (frames', out) \<and>
           set (columns out) =
             (\<Union>f\<in>set frames. set (columns (snd f))) \<union> (if add_type then {''Type''} else {}) \<and>
           list_all (\<lambda>f. set (columns (snd f)) \<subseteq> set (columns out)) frames"
proof -
  from main_Inr [OF assms, of add_type False] obtain out where
    "main frames add_type False = Inr (map (stamp add_type) frames, out)"
    "set (columns out) =
       (if False
        then set (compileColumns frames add_type) \<inter>
             (\<Inter>f\<in>set frames. set (columns (snd (stamp add_type f))))
        else set (compileColumns frames add_type) \<union>
             (\<Union>f\<in>set frames. set (columns (snd (stamp add_type f)))))"
    by blast
  then show ?thesis by (auto simp: merge_columns_union list_all_iff)
qed

theorem C2_witness:
  "wf_frames [sales, refunds] \<and>
   (\<exists>frames' out. main [sales, refunds] True False = Inr (frames', out) \<and>
      set (columns out) = {''Name'', ''Amount'', ''Reason'', ''Type''})"
proof -
  have wf: "wf_frames [sales, refunds]"
    by (simp add: wf_frames_def wf_DataFrame_def sales_def refunds_def)
  have "(\<Union>f\<in>set [sales, refunds]. set (columns (snd f))) = {''Name'', ''Amount'', ''Reason''}"
    by (auto simp: sales_def refunds_def)
  with C2 [OF wf, of True] wf show ?thesis by auto
qed

text \<open>
  C3. As stated the claim fails: in intersection mode with \<^verbatim>\<open>add_type\<close> true, \<^verbatim>\<open>Type\<close> is a
  label of the merged table although it is a label of no loaded table. On the tables of the
  scenario the merged labels are Name and Type, and the intersection of the tables' labels
  is Name alone.
\<close>

theorem C3_counterexample:
  "columns (snd (projr (main [sales, refunds] True True))) = [''Name'', ''Type''] \<and>
   ''Type'' \<notin> set (columns (snd sales)) \<inter> set (columns (snd refunds))"
  by (simp add: model_defs sales_def refunds_def)

text \<open>
  C3, amended. In intersection mode (\<^verbatim>\<open>common_columns_only\<close> true) the labels of the merged
  table are, as a set, the intersection of the labels of all loaded tables (the empty set
  when no table is loaded), plus \<^verbatim>\<open>Type\<close> whenever \<^verbatim>\<open>add_type\<close> is true. So without
  \<^verbatim>\<open>add_type\<close> the label \<^verbatim>\<open>Type\<close> is there only if every table has it.
\<close>

theorem C3:
  assumes "wf_frames frames"
  shows "\<exists>frames' out. main frames add_type True = Inr (frames', out) \<and>
           set (columns out) =
             (if frames = [] then {} else (\<Inter>f\<in>set frames. set (columns (snd f)))) \<union>
             (if add_type then {''Type''} else {})"
proof -
  from main_Inr [OF assms, of add_type True] obtain out where
    "main frames add_type True = Inr (map (stamp add_type) frames, out)"
    "set (columns out) =
       (if True
        then set (compileColumns frames add_type) \<inter>
             (\<Inter>f\<in>set frames. set (columns (snd (stamp add_type f))))
        else set (compileColumns frames add_type) \<union>
             (\<Union>f\<in>set frames. set (columns (snd (stamp add_type f)))))"
    by blast
  then show ?thesis by (simp add: merge_columns_inter)
qed

theorem C3_witness:
  "wf_frames [sales, refunds] \<and>
   (\<exists>frames' out. main [sales, refunds] True True = Inr (frames', out) \<and>
      set (columns out) = {''Name'', ''Type''})"
proof -
  have wf: "wf_frames [sales, refunds]"
    by (simp add: wf_frames_def wf_DataFrame_def sales_def refunds_def)
  have "(\<Inter>f\<in>set [sales, refunds]. set (columns (snd f))) = {''Name''}"
    by (auto simp: sales_def refunds_def)
  with C3 [OF wf, of True] wf show ?thesis by auto
qed

text \<open>
  C4. The rows of the merged table are the rows of the first table, then those of the second,
  and so on, each table's rows in their own order, re-projected onto the merged labels.
  In positions: row \<open>k\<close> of the \<open>i\<close>-th table is the row of the merged table at position
  \<open>offset frames i + k\<close>, where it holds, under every merged label (other than a stamped
  \<^verbatim>\<open>Type\<close>), the cell it holds in its table, or an empty cell when its table lacks the
  label; and every row of an earlier table has a smaller position than every row of a later
  table.
\<close>

theorem C4:
  assumes "wf_frames frames"
  shows "\<exists>frames' out.
           main frames add_type common_columns_only = Inr (frames', out) \<and>
           rows out = concat (map (\<lambda>f. project (columns out) (snd f)) frames') \<and>
           map nrows frames' = map nrows frames \<and>
           (\<forall>i k. i < length frames \<and> k < nrows (frames ! i) \<longrightarrow>
              offset frames i + k < length (rows out) \<and>
              (\<forall>c\<in>set (columns out). \<not> (add_type \<and> c = ''Type'') \<longrightarrow>
                 cell_at (columns out) (rows out ! (offset frames i + k)) c =
                   Some (cell_or_NaN (columns (snd (frames ! i))) (rows (snd (frames ! i)) ! k) c))) \<and>
           (\<forall>i j k. i < j \<and> j < length frames \<and> k < nrows (frames ! i) \<longrightarrow>
              offset frames i + k < offset frames j)"
proof -
  from main_Inr [OF assms, of add_type common_columns_only] obtain out where
    run: "main frames add_type common_columns_only = Inr (map (stamp add_type) frames, out)" and
    rws: "rows out = concat (map (\<lambda>f. project (columns out) (snd (stamp add_type f))) frames)"
    by blast
  have a: "rows out = concat (map (\<lambda>f. project (columns out) (snd f)) (map (stamp add_type) frames))"
    by (simp add: rws comp_def)
  have b: "map nrows (map (stamp add_type) frames) = map nrows frames"
    by (simp add: nrows_stamp)
  have c: "\<forall>i k. i < length frames \<and> k < nrows (frames ! i) \<longrightarrow>
              offset frames i + k < length (rows out) \<and>
              (\<forall>c\<in>set (columns out). \<not> (add_type \<and> c = ''Type'') \<longrightarrow>
                 cell_at (columns out) (rows out ! (offset frames i + k)) c =
                   Some (cell_or_NaN (columns (snd (frames ! i))) (rows (snd (frames ! i)) ! k) c))"
    using merged_row(1) [OF rws] merged_cell [OF assms rws] by auto
  have d: "\<forall>i j k. i < j \<and> j < length frames \<and> k < nrows (frames ! i) \<longrightarrow>
              offset frames i + k < offset frames j"
    by (simp add: offset_less)
  from run a b c d show ?thesis by blast
qed

theorem C4_witness:
  "wf_frames [sales, refunds] \<and>
   (\<exists>frames' out.
      main [sales, refunds] False False = Inr (frames', out) \<and>
      offset [sales, refunds] 0 + 1 < offset [sales, refunds] 1 \<and>
      cell_at (columns out) (rows out ! (offset [sales, refunds] 0 + 1)) ''Name'' = Some (Str ''bob'') \<and>
      cell_at (columns out) (rows out ! (offset [sales, refunds] 1 + 0)) ''Name'' = Some (Str ''ann''))"
proof -
  have wf: "wf_frames [sales, refunds]"
    by (simp add: wf_frames_def wf_DataFrame_def sales_def refunds_def)
  from C4 [OF wf, of False False] obtain frames' out where
    run: "main [sales, refunds] False False = Inr (frames', out)" and
    cells: "\<forall>i k. i < length [sales, refunds] \<and> k < nrows ([sales, refunds] ! i) \<longrightarrow>
              offset [sales, refunds] i + k < length (rows out) \<and>
              (\<forall>c\<in>set (columns out). \<not> (False \<and> c = ''Type'') \<longrightarrow>
                 cell_at (columns out) (rows out ! (offset [sales, refunds] i + k)) c =
                   Some (cell_or_NaN (columns (snd ([sales, refunds] ! i)))
                           (rows (snd ([sales, refunds] ! i)) ! k) c))" and
    ord: "\<forall>i j k. i < j \<and> j < length [sales, refunds] \<and> k < nrows ([sales, refunds] ! i) \<longrightarrow>
              offset [sales, refunds] i + k < offset [sales, refunds] j"
    by blast
  have name: "''Name'' \<in> set (columns out)"
    using run by (simp add: model_defs sales_def refunds_def) auto
  have k1: "(0::nat) < length [sales, refunds] \<and> 1 < nrows ([sales, refunds] ! 0)"
    by (simp add: nrows_def sales_def)
  have k2: "(1::nat) < length [sales, refunds] \<and> 0 < nrows ([sales, refunds] ! 1)"
    by (simp add: nrows_def refunds_def)
  from ord have
    "(0::nat) < 1 \<and> 1 < length [sales, refunds] \<and> 1 < nrows ([sales, refunds] ! 0) \<longrightarrow>
       offset [sales, refunds] 0 + 1 < offset [sales, refunds] 1"
    by blast
  with k1 have o: "offset [sales, refunds] 0 + 1 < offset [sales, refunds] 1"
    by simp
  from cells k1 name have
    "cell_at (columns out) (rows out ! (offset [sales, refunds] 0 + 1)) ''Name'' =
       Some (cell_or_NaN (columns (snd ([sales, refunds] ! 0))) (rows (snd ([sales, refunds] ! 0)) ! 1) ''Name'')"
    by blast
  then have c1: "cell_at (columns out) (rows out ! (offset [sales, refunds] 0 + 1)) ''Name'' = Some (Str ''bob'')"
    by (simp add: cell_or_NaN_def cell_at_def sales_def)
  from cells k2 name have
    "cell_at (columns out) (rows out ! (offset [sales, refunds] 1 + 0)) ''Name'' =
       Some (cell_or_NaN (columns (snd ([sales, refunds] ! 1))) (rows (snd ([sales, refunds] ! 1)) ! 0) ''Name'')"
    by blast
  then have c2: "cell_at (columns out) (rows out ! (offset [sales, refunds] 1 + 0)) ''Name'' = Some (Str ''ann'')"
    by (simp add: cell_or_NaN_def cell_at_def refunds_def)
  from wf run o c1 c2 show ?thesis by blast
qed

text \<open>
  C5. With \<^verbatim>\<open>add_type\<close> true, in both join modes, \<^verbatim>\<open>Type\<close> is a label of the merged
  table, whether or not a loaded table has such a column, and the cells under \<^verbatim>\<open>Type\<close>,
  read down the merged table, are: the sheet name of the first table, once for each of its
  rows, then the sheet name of the second table, and so on. A cell that a loaded table had
  under \<^verbatim>\<open>Type\<close> is overwritten (the witness has such a table).
\<close>

theorem C5:
  assumes "wf_frames frames"
  shows "\<exists>frames' out.
           main frames True common_columns_only = Inr (frames', out) \<and>
           ''Type'' \<in> set (columns out) \<and>
           map (\<lambda>r. cell_at (columns out) r ''Type'') (rows out) =
             concat (map (\<lambda>f. replicate (nrows f) (Some (Str (fst f)))) frames)"
proof -
  from main_Inr [OF assms, of True common_columns_only] obtain out where
    run: "main frames True common_columns_only = Inr (map (stamp True) frames, out)" and
    cols: "set (columns out) =
       (if common_columns_only
        then set (compileColumns frames True) \<inter>
             (\<Inter>f\<in>set frames. set (columns (snd (stamp True f))))
        else set (compileColumns frames True) \<union>
             (\<Union>f\<in>set frames. set (columns (snd (stamp True f)))))" and
    rws: "rows out = concat (map (\<lambda>f. project (columns out) (snd (stamp True f))) frames)"
    by blast
  have ty: "''Type'' \<in> set (columns out)"
    using cols by (auto simp: set_compileColumns columns_stamp)
  have "map (\<lambda>r. cell_at (columns out) r ''Type'') (rows out) =
          concat (map (\<lambda>f. map (\<lambda>r. cell_at (columns out) r ''Type'')
                              (project (columns out) (snd (stamp True f)))) frames)"
    by (simp add: rws map_concat comp_def)
  also have "\<dots> = concat (map (\<lambda>f. replicate (nrows f) (Some (Str (fst f)))) frames)"
  proof -
    have "map (\<lambda>f. map (\<lambda>r. cell_at (columns out) r ''Type'')
                  (project (columns out) (snd (stamp True f)))) frames =
          map (\<lambda>f. replicate (nrows f) (Some (Str (fst f)))) frames"
    proof (rule map_cong [OF refl])
      fix f assume "f \<in> set frames"
      with assms have "wf_DataFrame (snd f)"
        by (simp add: wf_frames_def list_all_iff)
      then show "map (\<lambda>r. cell_at (columns out) r ''Type'')
                   (project (columns out) (snd (stamp True f))) =
                 replicate (nrows f) (Some (Str (fst f)))"
        using ty by (rule Type_cells_project)
    qed
    then show ?thesis by (simp only:)
  qed
  finally show ?thesis using run ty by blast
qed

theorem C5_witness:
  "wf_frames [sales, stock] \<and>
   (\<exists>frames' out.
      main [sales, stock] True True = Inr (frames', out) \<and>
      ''Type'' \<in> set (columns out) \<and>
      map (\<lambda>r. cell_at (columns out) r ''Type'') (rows out) =
        [Some (Str ''Sales''), Some (Str ''Sales''), Some (Str ''Stock'')])"
proof -
  have wf: "wf_frames [sales, stock]"
    by (simp add: wf_frames_def wf_DataFrame_def sales_def stock_def)
  have "concat (map (\<lambda>f. replicate (nrows f) (Some (Str (fst f)))) [sales, stock]) =
          [Some (Str ''Sales''), Some (Str ''Sales''), Some (Str ''Stock'')]"
    by (simp add: nrows_def sales_def stock_def numeral_2_eq_2)
  with C5 [OF wf, of True] wf show ?thesis by simp
qed

text \<open>
  C6. As stated the claim fails in intersection mode: \<^verbatim>\<open>compileColumns\<close> always computes
  the union, and the accumulated frame loses labels as the loop goes. On the tables of the
  scenario, after the first iteration the accumulated labels are Amount and Name, while
  Reason is in the list of \<^verbatim>\<open>compileColumns\<close>.
\<close>

theorem C6_counterexample:
  "columns (snd (projr (merge_loop False Inner (take 1 [sales, refunds])
                          (new_DataFrame (compileColumns [sales, refunds] False))))) =
     [''Amount'', ''Name''] \<and>
   ''Reason'' \<in> set (compileColumns [sales, refunds] False)"
  by (simp add: model_defs sales_def refunds_def)

text \<open>
  C6, amended. The list of \<^verbatim>\<open>compileColumns\<close> is computed once, before the loop, and
  \<open>main\<close> is the loop run over all tables from the empty frame with these labels. After \<open>k\<close> iterations (all of them
  when \<open>k\<close> is at least the number of tables) the loop has not failed and the labels of the
  accumulated frame are: in union mode, exactly the set of \<^verbatim>\<open>compileColumns\<close>; in
  intersection mode, the labels of that set that every one of the first \<open>k\<close> tables has,
  \<^verbatim>\<open>Type\<close> counting as a label of every table when \<^verbatim>\<open>add_type\<close> is true.
\<close>

theorem C6:
  assumes "wf_frames frames"
  shows "main frames add_type common_columns_only =
           merge_loop add_type (if common_columns_only then Inner else Outer)
             (take (length frames) frames) (new_DataFrame (compileColumns frames add_type)) \<and>
         (\<exists>frames' acc.
           merge_loop add_type (if common_columns_only then Inner else Outer) (take k frames)
             (new_DataFrame (compileColumns frames add_type)) = Inr (frames', acc) \<and>
           set (columns acc) =
             (if common_columns_only
              then set (compileColumns frames add_type) \<inter>
                   (\<Inter>f\<in>set (take k frames).
                       set (columns (snd f)) \<union> (if add_type then {''Type''} else {}))
              else set (compileColumns frames add_type)))"
proof -
  have whole: "main frames add_type common_columns_only =
           merge_loop add_type (if common_columns_only then Inner else Outer)
             (take (length frames) frames) (new_DataFrame (compileColumns frames add_type))"
    by (simp add: main_def)
  have wf0: "wf_DataFrame (new_DataFrame (compileColumns frames add_type))"
    by (simp add: wf_DataFrame_def new_DataFrame_def distinct_compileColumns)
  have pre: "list_all (\<lambda>f. distinct (columns (snd f))) (take k frames)"
    using wf_frames_distinct [OF assms] by (auto simp: list_all_iff dest: in_set_takeD)
  from merge_loop_Inr [OF wf0 pre, of add_type "if common_columns_only then Inner else Outer"]
  obtain acc where
    run: "merge_loop add_type (if common_columns_only then Inner else Outer) (take k frames)
            (new_DataFrame (compileColumns frames add_type)) =
          Inr (map (stamp add_type) (take k frames), acc)" and
    cols: "set (columns acc) =
       (case (if common_columns_only then Inner else Outer) of
          Outer \<Rightarrow> set (columns (new_DataFrame (compileColumns frames add_type))) \<union>
                   (\<Union>f\<in>set (take k frames). set (columns (snd (stamp add_type f))))
        | Inner \<Rightarrow> set (columns (new_DataFrame (compileColumns frames add_type))) \<inter>
                   (\<Inter>f\<in>set (take k frames). set (columns (snd (stamp add_type f)))))"
    by blast
  have sub: "(\<Union>f\<in>set (take k frames). set (columns (snd (stamp add_type f)))) \<subseteq>
               set (compileColumns frames add_type)"
    by (auto simp: set_compileColumns columns_stamp dest: in_set_takeD split: if_splits)
  have "set (columns acc) =
             (if common_columns_only
              then set (compileColumns frames add_type) \<inter>
                   (\<Inter>f\<in>set (take k frames).
                       set (columns (snd f)) \<union> (if add_type then {''Type''} else {}))
              else set (compileColumns frames add_type))"
  proof (cases common_columns_only)
    case True
    with cols show ?thesis by (simp add: new_DataFrame_def columns_stamp)
  next
    case False
    with cols sub show ?thesis by (auto simp: new_DataFrame_def)
  qed
  with run whole show ?thesis by blast
qed

theorem C6_witness:
  "wf_frames [sales, refunds] \<and>
   (\<exists>frames' acc.
      merge_loop True Outer (take 1 [sales, refunds])
        (new_DataFrame (compileColumns [sales, refunds] True)) = Inr (frames', acc) \<and>
      set (columns acc) = {''Name'', ''Amount'', ''Reason'', ''Type''})"
proof -
  have wf: "wf_frames [sales, refunds]"
    by (simp add: wf_frames_def wf_DataFrame_def sales_def refunds_def)
  have "set (compileColumns [sales, refunds] True) = {''Name'', ''Amount'', ''Reason'', ''Type''}"
    by (auto simp: compileColumns_def sales_def refunds_def)
  with C6 [OF wf, of True False 1] wf show ?thesis by simp
qed

text \<open>
  C7. As stated the claim fails when \<^verbatim>\<open>add_type\<close> is true: \<^verbatim>\<open>compileColumns\<close> puts
  \<^verbatim>\<open>Type\<close> in the set before it looks at any table, so with no table loaded the column list
  is \<^verbatim>\<open>Type\<close> alone and the merged table has that column.
\<close>

theorem C7_counterexample:
  "compileColumns [] True = [''Type''] \<and>
   columns (snd (projr (main [] True False))) = [''Type'']"
  by (simp add: compileColumns_def main_def new_DataFrame_def)

text \<open>
  C7, amended. With no table loaded, in both join modes, the column list is empty when
  \<^verbatim>\<open>add_type\<close> is false and is \<^verbatim>\<open>Type\<close> alone when it is true; the merge returns a table
  with exactly these columns and no row.
\<close>

theorem C7:
  "compileColumns [] add_type = (if add_type then [''Type''] else []) \<and>
   main [] add_type common_columns_only =
     Inr ([], \<lparr>columns = (if add_type then [''Type''] else []), rows = []\<rparr>)"
  by (simp add: compileColumns_def main_def new_DataFrame_def)

text \<open>
  C8. However the labels of the loaded tables differ, the merge does not raise. In union
  mode every label of every table is a label of the merged table, and a row holds an empty
  cell under each merged label that its table lacks (\<^verbatim>\<open>Type\<close> apart, when it is stamped).
  In intersection mode a label that some table lacks is not a label of the merged table.
\<close>

theorem C8:
  assumes "wf_frames frames"
  shows "\<exists>frames' out.
           main frames add_type common_columns_only = Inr (frames', out) \<and>
           (\<forall>i<length frames.
              (if common_columns_only
               then set (columns out) \<subseteq>
                      set (columns (snd (frames ! i))) \<union> (if add_type then {''Type''} else {})
               else set (columns (snd (frames ! i))) \<subseteq> set (columns out)) \<and>
              (\<forall>k<nrows (frames ! i). \<forall>c\<in>set (columns out).
                 c \<notin> set (columns (snd (frames ! i))) \<and> \<not> (add_type \<and> c = ''Type'') \<longrightarrow>
                 cell_at (columns out) (rows out ! (offset frames i + k)) c = Some NaN))"
proof -
  from main_Inr [OF assms, of add_type common_columns_only] obtain out where
    run: "main frames add_type common_columns_only = Inr (map (stamp add_type) frames, out)" and
    cols: "set (columns out) =
       (if common_columns_only
        then set (compileColumns frames add_type) \<inter>
             (\<Inter>f\<in>set frames. set (columns (snd (stamp add_type f))))
        else set (compileColumns frames add_type) \<union>
             (\<Union>f\<in>set frames. set (columns (snd (stamp add_type f)))))" and
    rws: "rows out = concat (map (\<lambda>f. project (columns out) (snd (stamp add_type f))) frames)"
    by blast
  have "(if common_columns_only
         then set (columns out) \<subseteq>
                set (columns (snd (frames ! i))) \<union> (if add_type then {''Type''} else {})
         else set (columns (snd (frames ! i))) \<subseteq> set (columns out))"
    if "i < length frames" for i
  proof -
    from that have "frames ! i \<in> set frames" by simp
    then show ?thesis
      using cols by (auto simp: set_compileColumns columns_stamp split: if_splits)
  qed
  moreover have "cell_at (columns out) (rows out ! (offset frames i + k)) c = Some NaN"
    if "i < length frames" "k < nrows (frames ! i)" "c \<in> set (columns out)"
      "c \<notin> set (columns (snd (frames ! i)))" "\<not> (add_type \<and> c = ''Type'')" for i k c
  proof -
    have "cell_at (columns (snd (frames ! i))) (rows (snd (frames ! i)) ! k) c = None"
      using that(4) by (auto simp: cell_at_def map_of_eq_None_iff dest: set_zip_leftD)
    with merged_cell [OF assms rws that(1,2,3)] that(5) show ?thesis
      by (simp add: cell_or_NaN_def)
  qed
  ultimately show ?thesis using run by blast
qed

theorem C8_witness:
  "wf_frames [sales, refunds] \<and>
   (\<exists>frames' out.
      main [sales, refunds] False False = Inr (frames', out) \<and>
      set (columns (snd ([sales, refunds] ! 0))) \<subseteq> set (columns out) \<and>
      cell_at (columns out) (rows out ! (offset [sales, refunds] 0 + 1)) ''Reason'' = Some NaN)"
proof -
  have wf: "wf_frames [sales, refunds]"
    by (simp add: wf_frames_def wf_DataFrame_def sales_def refunds_def)
  from C8 [OF wf, of False False] obtain frames' out where
    run: "main [sales, refunds] False False = Inr (frames', out)" and
    all: "\<forall>i<length [sales, refunds].
              (if False
               then set (columns out) \<subseteq>
                      set (columns (snd ([sales, refunds] ! i))) \<union> (if False then {''Type''} else {})
               else set (columns (snd ([sales, refunds] ! i))) \<subseteq> set (columns out)) \<and>
              (\<forall>k<nrows ([sales, refunds] ! i). \<forall>c\<in>set (columns out).
                 c \<notin> set (columns (snd ([sales, refunds] ! i))) \<and> \<not> (False \<and> c = ''Type'') \<longrightarrow>
                 cell_at (columns out) (rows out ! (offset [sales, refunds] i + k)) c = Some NaN)"
    by blast
  have reason: "''Reason'' \<in> set (columns out)"
    using run by (simp add: model_defs sales_def refunds_def) auto
  have i: "(0::nat) < length [sales, refunds]" by simp
  have k: "(1::nat) < nrows ([sales, refunds] ! 0)" by (simp add: nrows_def sales_def)
  have absent: "''Reason'' \<notin> set (columns (snd ([sales, refunds] ! 0)))" by (simp add: sales_def)
  from all i have sub: "set (columns (snd ([sales, refunds] ! 0))) \<subseteq> set (columns out)"
    by (metis (full_types))
  from all i k reason absent have
    "cell_at (columns out) (rows out ! (offset [sales, refunds] 0 + 1)) ''Reason'' = Some NaN"
    by blast
  with wf run sub show ?thesis by blast
qed

text \<open>
  C9. After the merge every loaded table has its sheet name and, the column \<^verbatim>\<open>Type\<close> left
  aside, the same labels in the same order and the same rows in the same order with the same
  cells; when \<^verbatim>\<open>add_type\<close> is false the loaded tables are exactly as they were.
\<close>

theorem C9:
  assumes "wf_frames frames"
  shows "\<exists>frames' out.
           main frames add_type common_columns_only = Inr (frames', out) \<and>
           list_all2 (\<lambda>f f'. fst f' = fst f \<and> without ''Type'' (snd f') = without ''Type'' (snd f))
             frames frames' \<and>
           (add_type \<or> frames' = frames)"
proof -
  from main_Inr [OF assms, of add_type common_columns_only] obtain out where
    run: "main frames add_type common_columns_only = Inr (map (stamp add_type) frames, out)"
    by blast
  have "list_all2 (\<lambda>f f'. fst f' = fst f \<and> without ''Type'' (snd f') = without ''Type'' (snd f))
          frames (map (stamp add_type) frames)"
    using assms
    by (simp add: list_all2_map2 list_all2_same fst_stamp without_stamp wf_frames_def list_all_iff)
  moreover have "add_type \<or> map (stamp add_type) frames = frames"
    by (cases add_type) (auto intro!: map_idI simp: stamp_def)
  ultimately show ?thesis using run by blast
qed

theorem C9_witness:
  "wf_frames [sales, stock] \<and>
   (\<exists>frames' out.
      main [sales, stock] True False = Inr (frames', out) \<and>
      list_all2 (\<lambda>f f'. fst f' = fst f \<and> without ''Type'' (snd f') = without ''Type'' (snd f))
        [sales, stock] frames')"
proof -
  have wf: "wf_frames [sales, stock]"
    by (simp add: wf_frames_def wf_DataFrame_def sales_def stock_def)
  with C9 [OF wf, of True False] show ?thesis by auto
qed

text \<open>
  C10. When \<^verbatim>\<open>add_type\<close> is true, in both join modes: \<^verbatim>\<open>Type\<close> is in the list of
  \<^verbatim>\<open>compileColumns\<close>, every loaded table has a column \<^verbatim>\<open>Type\<close> after the loop, and
  \<^verbatim>\<open>Type\<close> is a label of the merged table.
\<close>

theorem C10:
  assumes "wf_frames frames"
  shows "''Type'' \<in> set (compileColumns frames True) \<and>
         (\<exists>frames' out. main frames True common_columns_only = Inr (frames', out) \<and>
            list_all (\<lambda>f. ''Type'' \<in> set (columns (snd f))) frames' \<and>
            ''Type'' \<in> set (columns out))"
proof -
  from main_Inr [OF assms, of True common_columns_only] obtain out where
    run: "main frames True common_columns_only = Inr (map (stamp True) frames, out)" and
    cols: "set (columns out) =
       (if common_columns_only
        then set (compileColumns frames True) \<inter>
             (\<Inter>f\<in>set frames. set (columns (snd (stamp True f))))
        else set (compileColumns frames True) \<union>
             (\<Union>f\<in>set frames. set (columns (snd (stamp True f)))))"
    by blast
  have a: "''Type'' \<in> set (compileColumns frames True)"
    by (simp add: set_compileColumns)
  have b: "list_all (\<lambda>f. ''Type'' \<in> set (columns (snd f))) (map (stamp True) frames)"
    by (simp add: list_all_iff columns_stamp)
  have c: "''Type'' \<in> set (columns out)"
    using cols a by (auto simp: columns_stamp)
  from a b c run show ?thesis by blast
qed

theorem C10_witness:
  "wf_frames [sales, refunds] \<and> ''Type'' \<in> set (compileColumns [sales, refunds] True) \<and>
   (\<exists>frames' out. main [sales, refunds] True True = Inr (frames', out) \<and>
      list_all (\<lambda>f. ''Type'' \<in> set (columns (snd f))) frames' \<and>
      ''Type'' \<in> set (columns out))"
proof -
  have wf: "wf_frames [sales, refunds]"
    by (simp add: wf_frames_def wf_DataFrame_def sales_def refunds_def)
  with C10 [OF wf, of True] show ?thesis by simp
qed

end
